theory Spec2Isabelle
  imports Main "HOL-Library.Word"
begin

section \<open>ESLib: typed publish/subscribe with a deferred event queue\<close>

text \<open>
  A shallow embedding of the headers \<^verbatim>\<open>EventRegistry.h\<close>, \<^verbatim>\<open>EventSubscriberCollection.h\<close>,
  \<^verbatim>\<open>EventSubscription.h\<close>, \<^verbatim>\<open>EventQueue.h\<close>, \<^verbatim>\<open>EventSystem.h\<close> and
  \<^verbatim>\<open>EventParametersParser.h\<close>. Templates become functions that take the template
  arguments as an explicit list of types; objects that the code reaches through pointers
  live in a table of allocated objects and a pointer is an index into it; an exception
  is the \<open>Inl\<close> branch of a sum.
\<close>

subsection \<open>Argument types and \<^verbatim>\<open>std::decay\<close>\<close>

text \<open>
  The event registry identifies a subscriber collection by the \<^emph>\<open>decayed\<close> template
  arguments. A type is a tree in which every object type carries its own
  const/volatile qualifiers, so that every C++ type has exactly one representation:
  \<open>Pointer False False (Named True False ''char'')\<close> is \<^verbatim>\<open>const char*\<close>, and
  \<open>Pointer True False (Named False False ''char'')\<close> is \<^verbatim>\<open>char* const\<close>.
\<close>

datatype cpp_type =
    Named bool bool string
  | Pointer bool bool cpp_type
  | LvalueRef cpp_type
  | RvalueRef cpp_type
  | ArrayOf cpp_type
  | FunctionType cpp_type "cpp_type list"

fun remove_reference :: "cpp_type \<Rightarrow> cpp_type" where
  "remove_reference (LvalueRef T) = T"
| "remove_reference (RvalueRef T) = T"
| "remove_reference T = T"

fun remove_cv :: "cpp_type \<Rightarrow> cpp_type" where
  "remove_cv (Named c v n) = Named False False n"
| "remove_cv (Pointer c v T) = Pointer False False T"
| "remove_cv T = T"

text \<open>
  \<^verbatim>\<open>std::decay<T>::type\<close>: with \<open>U = remove_reference T\<close>, an array of \<open>E\<close> becomes a
  pointer to \<open>E\<close>, a function type becomes a pointer to it, and anything else loses its
  top-level cv-qualifiers.
\<close>

definition decay :: "cpp_type \<Rightarrow> cpp_type" where
  "decay T =
     (case remove_reference T of
        ArrayOf E \<Rightarrow> Pointer False False E
      | FunctionType R As \<Rightarrow> Pointer False False (FunctionType R As)
      | U \<Rightarrow> remove_cv U)"

subsection \<open>Exceptions\<close>

text \<open>
  The functions modelled here throw \<^verbatim>\<open>std::invalid_argument\<close>; the message is kept as
  a value that says which throw statement it comes from. \<open>ArgumentTypesDiffer\<close> holds
  the event name, the argument types the event is registered with and the template
  arguments of the failing call, as the message does. A subscriber function may throw
  an exception object of any class: \<open>other_exception\<close> is one that is not a
  \<^verbatim>\<open>std::invalid_argument\<close> of the library, with a description of it.
\<close>

datatype what =
    AlreadyRegistered string
  | ArgumentTypesDiffer string "cpp_type list" "cpp_type list"
  | IllegalBooleanValue
  | IllegalIntegerValue

datatype exception = invalid_argument what | other_exception string

subsection \<open>Subscriber collections\<close>

type_synonym SubscriberIdType = "32 word"
type_synonym addr = nat

text \<open>
  \<^verbatim>\<open>struct Subscriber { SubscriberIdType id; std::function<void(Args...)> function; }\<close>.
  The type \<open>'f\<close> stands for the stored function objects. (The fields are \<open>sub_id\<close> and
  \<open>sub_function\<close> here: \<open>id\<close> is a constant of HOL and \<open>function\<close> a keyword.)
  \<^verbatim>\<open>SubscriberIdType\<close> is \<^verbatim>\<open>unsigned int\<close>, 32 bits wide with the compilers the library
  names (GCC and Visual Studio).
\<close>

record 'f Subscriber =
  sub_id :: SubscriberIdType
  sub_function :: 'f

text \<open>
  \<^verbatim>\<open>SubscriberCollection<Args...>\<close>: the field \<open>argTypes\<close> is the object's dynamic type
  (its template arguments), which \<^verbatim>\<open>dynamic_cast\<close> inspects.
\<close>

record 'f SubscriberCollection =
  argTypes :: "cpp_type list"
  handlers :: "'f Subscriber list"
  newIdCounter :: SubscriberIdType

definition SubscriberCollection_new :: "cpp_type list \<Rightarrow> 'f SubscriberCollection" where
  "SubscriberCollection_new Args = \<lparr>argTypes = Args, handlers = [], newIdCounter = 0\<rparr>"

subsection \<open>The event registry\<close>

text \<open>
  \<open>subscribersByEventName\<close> is the \<^verbatim>\<open>std::map\<close> from names to collection pointers;
  \<open>collections\<close> is the table of the collection objects allocated with \<^verbatim>\<open>new\<close>, and a
  pointer to a collection is its index in the table. Nothing is freed before the
  registry's destructor runs, so allocation appends to the table.
\<close>

record 'f EventRegistry =
  subscribersByEventName :: "string \<rightharpoonup> addr"
  collections :: "'f SubscriberCollection list"

text \<open>
  \<^verbatim>\<open>dynamic_cast<SubscriberCollection<Args...>*>(hcBase)\<close>: the pointer itself when the
  object's dynamic type has exactly these template arguments, \<^verbatim>\<open>NULL\<close> otherwise.
  (A pointer outside the table is a dangling pointer: the registry never holds one.)
\<close>

definition dynamic_cast ::
  "cpp_type list \<Rightarrow> 'f SubscriberCollection list \<Rightarrow> addr \<Rightarrow> addr option" where
  "dynamic_cast Args objs hcBase =
     (if hcBase < length objs \<and> argTypes (objs ! hcBase) = Args then Some hcBase else None)"

definition hasRegisteredEvent ::
  "cpp_type list \<Rightarrow> string \<Rightarrow> ('f, 'z) EventRegistry_scheme \<Rightarrow> bool" where
  "hasRegisteredEvent Args name r =
     (case subscribersByEventName r name of
        None \<Rightarrow> False
      | Some hcBase \<Rightarrow>
          (case dynamic_cast (map decay Args) (collections r) hcBase of
             None \<Rightarrow> False
           | Some hc \<Rightarrow> True))"

text \<open>
  \<^verbatim>\<open>EventRegistry::registerEvent<Args...>(name)\<close>. The result pairs what the call returns
  or throws with the registry after the call.
\<close>

definition registerEvent ::
  "cpp_type list \<Rightarrow> string \<Rightarrow> ('f, 'z) EventRegistry_scheme \<Rightarrow>
     (exception + addr) \<times> ('f, 'z) EventRegistry_scheme" where
  "registerEvent Args name r =
     (case subscribersByEventName r name of
        Some existing \<Rightarrow> (Inl (invalid_argument (AlreadyRegistered name)), r)
      | None \<Rightarrow>
          (let hc = length (collections r)
           in (Inr hc,
               r\<lparr>subscribersByEventName := (subscribersByEventName r)(name \<mapsto> hc),
                 collections := collections r @ [SubscriberCollection_new (map decay Args)]\<rparr>)))"

text \<open>\<^verbatim>\<open>EventRegistry::getSubscribers<Args...>(name)\<close>; \<open>None\<close> is the \<^verbatim>\<open>NULL\<close> result.\<close>

definition getSubscribers ::
  "cpp_type list \<Rightarrow> string \<Rightarrow> ('f, 'z) EventRegistry_scheme \<Rightarrow> exception + addr option" where
  "getSubscribers Args name r =
     (case subscribersByEventName r name of
        None \<Rightarrow> Inr None
      | Some hcBase \<Rightarrow>
          (case dynamic_cast (map decay Args) (collections r) hcBase of
             None \<Rightarrow>
               Inl (invalid_argument
                 (ArgumentTypesDiffer name (argTypes (collections r ! hcBase)) Args))
           | Some hc \<Rightarrow> Inr (Some hc)))"

definition getOrRegister ::
  "cpp_type list \<Rightarrow> string \<Rightarrow> ('f, 'z) EventRegistry_scheme \<Rightarrow>
     (exception + addr) \<times> ('f, 'z) EventRegistry_scheme" where
  "getOrRegister Args name r =
     (case subscribersByEventName r name of
        Some hcBase \<Rightarrow>
          (case dynamic_cast (map decay Args) (collections r) hcBase of
             None \<Rightarrow>
               (Inl (invalid_argument
                  (ArgumentTypesDiffer name (argTypes (collections r ! hcBase)) Args)), r)
           | Some hc \<Rightarrow> (Inr hc, r))
      | None \<Rightarrow>
          (let hc = length (collections r)
           in (Inr hc,
               r\<lparr>subscribersByEventName := (subscribersByEventName r)(name \<mapsto> hc),
                 collections := collections r @ [SubscriberCollection_new (map decay Args)]\<rparr>)))"

text \<open>
  \<^verbatim>\<open>EventSystem::registerEvent<Args...>(name)\<close> hides the registry's method and calls
  \<^verbatim>\<open>getOrRegister\<close>.
\<close>

definition EventSystem_registerEvent ::
  "cpp_type list \<Rightarrow> string \<Rightarrow> ('f, 'z) EventRegistry_scheme \<Rightarrow>
     (exception + addr) \<times> ('f, 'z) EventRegistry_scheme" where
  "EventSystem_registerEvent Args name r = getOrRegister Args name r"

definition EventRegistry_new :: "'f EventRegistry" where
  "EventRegistry_new = \<lparr>subscribersByEventName = Map.empty, collections = []\<rparr>"

subsection \<open>Subscription handles\<close>

text \<open>
  \<^verbatim>\<open>SubscriptionHandle\<close>: a collection pointer (\<open>None\<close> is \<^verbatim>\<open>NULL\<close>) and a subscriber
  id. \<^verbatim>\<open>ScopedSubscription\<close> derives from it and adds no field.
\<close>

record SubscriptionHandle =
  subscriberCollection :: "addr option"
  subscriberId :: SubscriberIdType

definition SubscriptionHandle_empty :: SubscriptionHandle where
  "SubscriptionHandle_empty = \<lparr>subscriberCollection = None, subscriberId = 0\<rparr>"

text \<open>
  \<^verbatim>\<open>SubscriberCollection::addSubscriberImpl\<close> on the collection object; the handle it
  returns is \<^verbatim>\<open>{this, newId}\<close>. The counter is an \<^verbatim>\<open>unsigned int\<close>: \<open>+ 1\<close> wraps.
\<close>

definition addSubscriberImpl ::
  "'f \<Rightarrow> 'f SubscriberCollection \<Rightarrow> SubscriberIdType \<times> 'f SubscriberCollection" where
  "addSubscriberImpl f c =
     (let newId = newIdCounter c
      in (newId,
          c\<lparr>handlers := handlers c @ [\<lparr>sub_id = newId, sub_function = f\<rparr>],
            newIdCounter := newIdCounter c + 1\<rparr>))"

text \<open>The loop of \<^verbatim>\<open>removeHandler\<close>: erase the first subscriber with the id, then return.\<close>

fun erase_first :: "SubscriberIdType \<Rightarrow> 'f Subscriber list \<Rightarrow> 'f Subscriber list" where
  "erase_first handlerId [] = []"
| "erase_first handlerId (s # ss) =
     (if sub_id s = handlerId then ss else s # erase_first handlerId ss)"

definition removeHandler ::
  "SubscriberIdType \<Rightarrow> 'f SubscriberCollection \<Rightarrow> 'f SubscriberCollection" where
  "removeHandler handlerId c = c\<lparr>handlers := erase_first handlerId (handlers c)\<rparr>"

text \<open>
  A member call through a collection pointer changes the object the pointer refers to.
  (Through a pointer outside the table the source has undefined behaviour; the model
  leaves the table as it is.)
\<close>

definition update_at ::
  "addr \<Rightarrow> ('f SubscriberCollection \<Rightarrow> 'f SubscriberCollection) \<Rightarrow>
     'f SubscriberCollection list \<Rightarrow> 'f SubscriberCollection list" where
  "update_at this g objs = (if this < length objs then objs[this := g (objs ! this)] else objs)"

definition handlers_at :: "'f SubscriberCollection list \<Rightarrow> addr \<Rightarrow> 'f Subscriber list" where
  "handlers_at objs this = (if this < length objs then handlers (objs ! this) else [])"

text \<open>
  \<^verbatim>\<open>collection->addSubscriber(function)\<close> for a collection pointer \<open>this\<close>, which must
  point into the table (\<open>this < length objs\<close>), as every pointer that \<^verbatim>\<open>registerEvent\<close>,
  \<^verbatim>\<open>getOrRegister\<close> or \<^verbatim>\<open>getSubscribers\<close> returned does.
\<close>

definition addSubscriber ::
  "addr \<Rightarrow> 'f \<Rightarrow> 'f SubscriberCollection list \<Rightarrow>
     SubscriptionHandle \<times> 'f SubscriberCollection list" where
  "addSubscriber this f objs =
     (\<lparr>subscriberCollection = Some this, subscriberId = fst (addSubscriberImpl f (objs ! this))\<rparr>,
      update_at this (\<lambda>c. snd (addSubscriberImpl f c)) objs)"

text \<open>\<^verbatim>\<open>SubscriptionHandle::unsubscribe\<close>: the handle after the call, and the table.\<close>

definition unsubscribe ::
  "SubscriptionHandle \<Rightarrow> 'f SubscriberCollection list \<Rightarrow>
     SubscriptionHandle \<times> 'f SubscriberCollection list" where
  "unsubscribe h objs =
     (case subscriberCollection h of
        None \<Rightarrow> (h, objs)
      | Some c \<Rightarrow>
          (h\<lparr>subscriberCollection := None\<rparr>, update_at c (removeHandler (subscriberId h)) objs))"

text \<open>\<^verbatim>\<open>SubscriptionHandle::clear\<close> (only in \<^verbatim>\<open>EventSubscription.h\<close>).\<close>

definition clear_handle :: "SubscriptionHandle \<Rightarrow> SubscriptionHandle" where
  "clear_handle h = h\<lparr>subscriberCollection := None\<rparr>"

text \<open>
  \<^verbatim>\<open>ScopedSubscription::operator=(const SubscriptionHandle&)\<close>: unsubscribe what this
  object owns, then copy the members of the argument. The result is \<^verbatim>\<open>*this\<close> after
  the assignment, and the table.
\<close>

definition ScopedSubscription_assign ::
  "SubscriptionHandle \<Rightarrow> SubscriptionHandle \<Rightarrow> 'f SubscriberCollection list \<Rightarrow>
     SubscriptionHandle \<times> 'f SubscriberCollection list" where
  "ScopedSubscription_assign this handle objs = (handle, snd (unsubscribe this objs))"

text \<open>
  \<^verbatim>\<open>ScopedSubscription::release\<close> as \<^verbatim>\<open>EventSubscription.h\<close> has it:
  \<^verbatim>\<open>SubscriptionHandle res = *this; clear(); return res;\<close>
  The result is the returned handle, \<^verbatim>\<open>*this\<close> after the call, and the table.
\<close>

definition ScopedSubscription_release ::
  "SubscriptionHandle \<Rightarrow> 'f SubscriberCollection list \<Rightarrow>
     SubscriptionHandle \<times> SubscriptionHandle \<times> 'f SubscriberCollection list" where
  "ScopedSubscription_release this objs = (this, clear_handle this, objs)"

text \<open>
  \<^verbatim>\<open>ScopedSubscription::release\<close> as the copy of the class inside
  \<^verbatim>\<open>EventSubscriberCollection.h\<close> has it:
  \<^verbatim>\<open>SubscriptionHandle res = *this; *this = SubscriptionHandle(); return res;\<close>
  The right-hand side is a \<^verbatim>\<open>SubscriptionHandle\<close>, so overload resolution selects
  \<^verbatim>\<open>operator=(const SubscriptionHandle&)\<close> (an exact match; the move assignment would
  need the converting constructor).
\<close>

definition ScopedSubscription_release_assign ::
  "SubscriptionHandle \<Rightarrow> 'f SubscriberCollection list \<Rightarrow>
     SubscriptionHandle \<times> SubscriptionHandle \<times> 'f SubscriberCollection list" where
  "ScopedSubscription_release_assign this objs =
     (let res = this;
          (this', objs') = ScopedSubscription_assign this SubscriptionHandle_empty objs
      in (res, this', objs'))"

text \<open>\<^verbatim>\<open>~ScopedSubscription\<close> calls \<^verbatim>\<open>unsubscribe\<close>.\<close>

definition ScopedSubscription_destroy ::
  "SubscriptionHandle \<Rightarrow> 'f SubscriberCollection list \<Rightarrow> 'f SubscriberCollection list" where
  "ScopedSubscription_destroy this objs = snd (unsubscribe this objs)"

subsection \<open>The event system: registry, queue and handlers\<close>

text \<open>
  \<^verbatim>\<open>EventSystem\<close> derives from \<^verbatim>\<open>EventRegistry\<close> and owns an \<^verbatim>\<open>EventQueue\<close>. The queue's
  chain of \<^verbatim>\<open>QueuedEvent\<close> nodes from \<^verbatim>\<open>eventQueueHead\<close> to \<^verbatim>\<open>eventQueueTail\<close> is the
  list \<open>dynamicQueue\<close> of their \<^verbatim>\<open>(handlerRef, args)\<close> pairs; \<open>'a\<close> is the type of argument
  tuples. \<open>userState\<close> is whatever the handlers read and write outside the event system.
  The last three fields only record what happened, for the statements about order:
  every \<^verbatim>\<open>enqueue_tuple\<close>, every \<^verbatim>\<open>fire\<close> and every call of a subscriber function.
  Nothing in the model reads them.
\<close>

record ('f, 'a, 'u) EventSystem = "'f EventRegistry" +
  dynamicQueue :: "(addr \<times> 'a) list"
  userState :: 'u
  enqueued :: "(addr \<times> 'a) list"
  fired :: "(addr \<times> 'a) list"
  calls :: "('f \<times> 'a) list"

text \<open>
  What a stored function object does when it is called with an argument tuple: it
  changes the user state, it may enqueue events (a handler that publishes), and it
  either returns (\<open>None\<close>) or throws (\<open>Some\<close> of the exception object); what it did
  before it threw stays done. (A call is taken to end, one way or the other.)
  Handlers must not add or remove subscribers while an
  event is processed (the headers say so), so a handler changes nothing else of the
  event system.
\<close>

type_synonym ('f, 'a, 'u) behaviour =
  "'f \<Rightarrow> 'a \<Rightarrow> 'u \<Rightarrow> 'u \<times> (addr \<times> 'a) list \<times> exception option"

text \<open>\<^verbatim>\<open>EventQueue::enqueue_tuple\<close>: a new node at the tail.\<close>

definition enqueue_tuple ::
  "addr \<Rightarrow> 'a \<Rightarrow> ('f, 'a, 'u) EventSystem \<Rightarrow> ('f, 'a, 'u) EventSystem" where
  "enqueue_tuple handlerRef args w =
     w\<lparr>dynamicQueue := dynamicQueue w @ [(handlerRef, args)],
       enqueued := enqueued w @ [(handlerRef, args)]\<rparr>"

text \<open>\<^verbatim>\<open>EventQueue::enqueue\<close> builds the tuple and calls \<^verbatim>\<open>enqueue_tuple\<close>.\<close>

definition enqueue ::
  "addr \<Rightarrow> 'a \<Rightarrow> ('f, 'a, 'u) EventSystem \<Rightarrow> ('f, 'a, 'u) EventSystem" where
  "enqueue handlerRef args w = enqueue_tuple handlerRef args w"

fun enqueue_all ::
  "(addr \<times> 'a) list \<Rightarrow> ('f, 'a, 'u) EventSystem \<Rightarrow> ('f, 'a, 'u) EventSystem" where
  "enqueue_all [] w = w"
| "enqueue_all (e # es) w = enqueue_all es (enqueue_tuple (fst e) (snd e) w)"

text \<open>
  One call \<^verbatim>\<open>handler.function(args...)\<close>: the exception it threw, if any, and the event
  system after it.
\<close>

definition invoke ::
  "('f, 'a, 'u) behaviour \<Rightarrow> 'f \<Rightarrow> 'a \<Rightarrow> ('f, 'a, 'u) EventSystem \<Rightarrow>
     exception option \<times> ('f, 'a, 'u) EventSystem" where
  "invoke run f args w =
     (case run f args (userState w) of
        (u, evs, thrown) \<Rightarrow>
          (thrown, enqueue_all evs (w\<lparr>userState := u, calls := calls w @ [(f, args)]\<rparr>)))"

text \<open>
  \<^verbatim>\<open>SubscriberCollection::call\<close>: the loop over \<open>handlers\<close>, in order. Nothing catches
  an exception, so the first subscriber that throws ends the loop and the call.
\<close>

fun call_loop ::
  "('f, 'a, 'u) behaviour \<Rightarrow> 'f Subscriber list \<Rightarrow> 'a \<Rightarrow> ('f, 'a, 'u) EventSystem \<Rightarrow>
     exception option \<times> ('f, 'a, 'u) EventSystem" where
  "call_loop run [] args w = (None, w)"
| "call_loop run (handler # rest) args w =
     (case invoke run (sub_function handler) args w of
        (Some ex, w') \<Rightarrow> (Some ex, w')
      | (None, w') \<Rightarrow> call_loop run rest args w')"

definition call ::
  "('f, 'a, 'u) behaviour \<Rightarrow> addr \<Rightarrow> 'a \<Rightarrow> ('f, 'a, 'u) EventSystem \<Rightarrow>
     exception option \<times> ('f, 'a, 'u) EventSystem" where
  "call run this args w = call_loop run (handlers_at (collections w) this) args w"

text \<open>\<^verbatim>\<open>call_tuple\<close> unpacks the tuple and does the same.\<close>

definition call_tuple ::
  "('f, 'a, 'u) behaviour \<Rightarrow> addr \<Rightarrow> 'a \<Rightarrow> ('f, 'a, 'u) EventSystem \<Rightarrow>
     exception option \<times> ('f, 'a, 'u) EventSystem" where
  "call_tuple run this args w = call run this args w"

text \<open>\<^verbatim>\<open>QueuedEvent::fire\<close>: \<^verbatim>\<open>handlerRef->call_tuple(args)\<close>.\<close>

definition fire ::
  "('f, 'a, 'u) behaviour \<Rightarrow> addr \<times> 'a \<Rightarrow> ('f, 'a, 'u) EventSystem \<Rightarrow>
     exception option \<times> ('f, 'a, 'u) EventSystem" where
  "fire run e w = call_tuple run (fst e) (snd e) (w\<lparr>fired := fired w @ [e]\<rparr>)"

text \<open>
  The loop of \<^verbatim>\<open>process\<close> over the detached chain: fire, delete, go to \<open>next\<close>. When
  \<^verbatim>\<open>cur->fire()\<close> throws, the loop is left at once: the nodes from \<open>cur\<close> on are neither
  fired nor deleted, and nothing points to them any more.
\<close>

fun fire_chain ::
  "('f, 'a, 'u) behaviour \<Rightarrow> (addr \<times> 'a) list \<Rightarrow> ('f, 'a, 'u) EventSystem \<Rightarrow>
     exception option \<times> ('f, 'a, 'u) EventSystem" where
  "fire_chain run [] w = (None, w)"
| "fire_chain run (cur # next) w =
     (case fire run cur w of
        (Some ex, w') \<Rightarrow> (Some ex, w')
      | (None, w') \<Rightarrow> fire_chain run next w')"

text \<open>
  \<^verbatim>\<open>EventQueue::process\<close>: return false on an empty queue; otherwise take the chain,
  reset head and tail, fire the chain and return true. An exception from a handler
  passes through (\<open>Inl\<close>): \<^verbatim>\<open>return true\<close> is not reached.
\<close>

definition process ::
  "('f, 'a, 'u) behaviour \<Rightarrow> ('f, 'a, 'u) EventSystem \<Rightarrow>
     (exception + bool) \<times> ('f, 'a, 'u) EventSystem" where
  "process run w =
     (case dynamicQueue w of
        [] \<Rightarrow> (Inr False, w)
      | cur # next \<Rightarrow>
          (case fire_chain run (cur # next) (w\<lparr>dynamicQueue := []\<rparr>) of
             (Some ex, w') \<Rightarrow> (Inl ex, w')
           | (None, w') \<Rightarrow> (Inr True, w')))"


text \<open>The event system after \<open>n\<close> calls of \<^verbatim>\<open>process\<close> is \<open>(batch run ^^ n) w\<close>.\<close>

definition batch ::
  "('f, 'a, 'u) behaviour \<Rightarrow> ('f, 'a, 'u) EventSystem \<Rightarrow> ('f, 'a, 'u) EventSystem" where
  "batch run w = snd (process run w)"


subsection \<open>The facade\<close>

text \<open>
  \<^verbatim>\<open>EventSystem::publish<Args...>(name, args...)\<close> and \<^verbatim>\<open>EventSystem::call\<close>: what the
  call returns or throws, and the event system after it. \<^verbatim>\<open>call\<close> runs the subscribers
  before its \<^verbatim>\<open>return true\<close>, so what a subscriber throws is what \<^verbatim>\<open>call\<close> throws.
\<close>

definition publish ::
  "cpp_type list \<Rightarrow> string \<Rightarrow> 'a \<Rightarrow> ('f, 'a, 'u) EventSystem \<Rightarrow>
     (exception + bool) \<times> ('f, 'a, 'u) EventSystem" where
  "publish Args name args w =
     (case getSubscribers Args name w of
        Inl ex \<Rightarrow> (Inl ex, w)
      | Inr None \<Rightarrow> (Inr False, w)
      | Inr (Some e) \<Rightarrow> (Inr True, enqueue e args w))"

definition EventSystem_call ::
  "('f, 'a, 'u) behaviour \<Rightarrow> cpp_type list \<Rightarrow> string \<Rightarrow> 'a \<Rightarrow> ('f, 'a, 'u) EventSystem \<Rightarrow>
     (exception + bool) \<times> ('f, 'a, 'u) EventSystem" where
  "EventSystem_call run Args name args w =
     (case getSubscribers Args name w of
        Inl ex \<Rightarrow> (Inl ex, w)
      | Inr None \<Rightarrow> (Inr False, w)
      | Inr (Some e) \<Rightarrow>
          (case call run e args w of
             (Some ex, w') \<Rightarrow> (Inl ex, w')
           | (None, w') \<Rightarrow> (Inr True, w')))"

text \<open>
  \<^verbatim>\<open>EventSystem::subscribe<Args...>(name, function)\<close>: \<^verbatim>\<open>getOrRegister\<close>, then
  \<^verbatim>\<open>addSubscriber\<close> on the collection it returned.
\<close>

definition subscribe ::
  "cpp_type list \<Rightarrow> string \<Rightarrow> 'f \<Rightarrow> ('f, 'z) EventRegistry_scheme \<Rightarrow>
     (exception + SubscriptionHandle) \<times> ('f, 'z) EventRegistry_scheme" where
  "subscribe Args name f r =
     (case getOrRegister Args name r of
        (Inl ex, r') \<Rightarrow> (Inl ex, r')
      | (Inr e, r') \<Rightarrow>
          (let (h, objs) = addSubscriber e f (collections r')
           in (Inr h, r'\<lparr>collections := objs\<rparr>)))"


definition EventSystem_new :: "'u \<Rightarrow> ('f, 'a, 'u) EventSystem" where
  "EventSystem_new u =
     \<lparr>subscribersByEventName = Map.empty, collections = [], dynamicQueue = [],
      userState = u, enqueued = [], fired = [], calls = []\<rparr>"

subsection \<open>Parsing parameter values\<close>

text \<open>
  \<^verbatim>\<open>ParameterValueParser<bool>::parse\<close> and its helper \<^verbatim>\<open>matches\<close>: the sizes must be
  equal, and every character, in lower case, must be the expected one. \<^verbatim>\<open>tolower\<close>
  is the C library's for the classic locale.
\<close>

definition tolower :: "char \<Rightarrow> char" where
  "tolower ch =
     (if 65 \<le> (of_char ch :: nat) \<and> (of_char ch :: nat) \<le> 90
      then char_of ((of_char ch :: nat) + 32) else ch)"

fun matches_loop :: "string \<Rightarrow> string \<Rightarrow> bool" where
  "matches_loop [] expected = True"
| "matches_loop (v # vs) [] = False"
| "matches_loop (v # vs) (e # es) = (if tolower v \<noteq> e then False else matches_loop vs es)"

definition matches :: "string \<Rightarrow> string \<Rightarrow> bool" where
  "matches val expected =
     (if length val \<noteq> length expected then False else matches_loop val expected)"

definition ParameterValueParser_bool_parse :: "string \<Rightarrow> exception + bool" where
  "ParameterValueParser_bool_parse stringValue =
     (if matches stringValue ''true'' then Inr True
      else if matches stringValue ''false'' then Inr False
      else Inl (invalid_argument IllegalBooleanValue))"

text \<open>
  \<^verbatim>\<open>ParameterValueParser<T>::parse\<close> for an integral \<open>T\<close> is
  \<^verbatim>\<open>std::istringstream is(stringValue); int result; if (!(is >> result)) throw ...; return result;\<close>
  The extraction \<^verbatim>\<open>is >> result\<close> is the standard library's, here for the classic
  locale: it skips leading whitespace, reads an optional sign and the longest run of
  decimal digits, and fails when there is no digit or the value does not fit an
  \<^verbatim>\<open>int\<close> (32 bits). The characters after the digits stay in the stream.
\<close>

definition isspace :: "char \<Rightarrow> bool" where
  "isspace ch = ((of_char ch :: nat) \<in> {9, 10, 11, 12, 13, 32})"

definition isdigit :: "char \<Rightarrow> bool" where
  "isdigit ch = (48 \<le> (of_char ch :: nat) \<and> (of_char ch :: nat) \<le> 57)"

definition digits_value :: "string \<Rightarrow> int" where
  "digits_value ds = foldl (\<lambda>acc ch. 10 * acc + (of_char ch - 48)) 0 ds"

definition istream_extract_int :: "string \<Rightarrow> int option" where
  "istream_extract_int s =
     (let rest = dropWhile isspace s;
          negative = (rest \<noteq> [] \<and> hd rest = CHR ''-'');
          unsigned = (if rest \<noteq> [] \<and> (hd rest = CHR ''-'' \<or> hd rest = CHR ''+'')
                      then tl rest else rest);
          ds = takeWhile isdigit unsigned;
          v = (if negative then - digits_value ds else digits_value ds)
      in if ds = [] then None
         else if v < - 2147483648 \<or> 2147483647 < v then None
         else Some v)"

definition ParameterValueParser_integral_parse :: "string \<Rightarrow> exception + int" where
  "ParameterValueParser_integral_parse stringValue =
     (case istream_extract_int stringValue of
        None \<Rightarrow> Inl (invalid_argument IllegalIntegerValue)
      | Some result \<Rightarrow> Inr result)"

subsection \<open>Collections by the number of subscribers ever added\<close>

text \<open>
  \<open>added n c\<close>: the collection \<open>c\<close> is what a new collection becomes after \<open>n\<close> calls
  of \<^verbatim>\<open>addSubscriberImpl\<close> and any number of calls of \<^verbatim>\<open>removeHandler\<close>, in any order.
\<close>

inductive added :: "nat \<Rightarrow> 'f SubscriberCollection \<Rightarrow> bool" where
  added_new: "added 0 (SubscriberCollection_new Args)"
| added_add: "added n c \<Longrightarrow> added (Suc n) (snd (addSubscriberImpl f c))"
| added_remove: "added n c \<Longrightarrow> added n (removeHandler handlerId c)"

subsection \<open>Sequences of registry operations\<close>

text \<open>
  The operations that change a registry or its collections, as commands, and a
  registry after a sequence of them. A call that throws leaves the registry as the
  second component of its result says.
\<close>

datatype 'f registry_action =
    DoRegisterEvent "cpp_type list" string
  | DoGetOrRegister "cpp_type list" string
  | DoSubscribe "cpp_type list" string 'f
  | DoAddSubscriber addr 'f
  | DoUnsubscribe SubscriptionHandle

fun perform ::
  "'f registry_action \<Rightarrow> ('f, 'z) EventRegistry_scheme \<Rightarrow> ('f, 'z) EventRegistry_scheme" where
  "perform (DoRegisterEvent Args name) r = snd (registerEvent Args name r)"
| "perform (DoGetOrRegister Args name) r = snd (getOrRegister Args name r)"
| "perform (DoSubscribe Args name f) r = snd (subscribe Args name f r)"
| "perform (DoAddSubscriber this f) r =
     r\<lparr>collections := snd (addSubscriber this f (collections r))\<rparr>"
| "perform (DoUnsubscribe h) r = r\<lparr>collections := snd (unsubscribe h (collections r))\<rparr>"

fun perform_all ::
  "'f registry_action list \<Rightarrow> ('f, 'z) EventRegistry_scheme \<Rightarrow> ('f, 'z) EventRegistry_scheme" where
  "perform_all [] r = r"
| "perform_all (a # as) r = perform_all as (perform a r)"

text \<open>The name is bound to the collection \<open>c\<close>, an object with template arguments \<open>S\<close>.\<close>

definition bound_to ::
  "('f, 'z) EventRegistry_scheme \<Rightarrow> string \<Rightarrow> addr \<Rightarrow> cpp_type list \<Rightarrow> bool" where
  "bound_to r name c S =
     (subscribersByEventName r name = Some c \<and> c < length (collections r) \<and>
      argTypes (collections r ! c) = S)"

subsection \<open>The subscriber functions on their own\<close>


text \<open>
  \<open>run_sequence run cs u\<close> makes the calls \<open>cs\<close> one after the other, starting in the
  user state \<open>u\<close>, with no event system around them, and stops after the first call
  that throws. It gives the user state at the end, the events the functions asked to
  enqueue, in order, the calls that were made, and the exception that ended the
  sequence, if any.
\<close>

fun run_sequence ::
  "('f, 'a, 'u) behaviour \<Rightarrow> ('f \<times> 'a) list \<Rightarrow> 'u \<Rightarrow>
     'u \<times> (addr \<times> 'a) list \<times> ('f \<times> 'a) list \<times> exception option" where
  "run_sequence run [] u = (u, [], [], None)"
| "run_sequence run (c # cs) u =
     (case run (fst c) (snd c) u of
        (u', evs, Some ex) \<Rightarrow> (u', evs, [c], Some ex)
      | (u', evs, None) \<Rightarrow>
          (case run_sequence run cs u' of
             (u'', evs', made, thrown) \<Rightarrow> (u'', evs @ evs', c # made, thrown)))"

subsection \<open>Example types and registries\<close>

definition T_int :: cpp_type where
  "T_int = Named False False ''int''"

definition T_string :: cpp_type where
  "T_string = Named False False ''std::string''"

definition T_char :: cpp_type where
  "T_char = Named False False ''char''"

text \<open>A facade on which \<^verbatim>\<open>registerEvent<int>("TestEvent")\<close> has been called once.\<close>

definition registry_TestEvent :: "nat EventRegistry" where
  "registry_TestEvent = snd (EventSystem_registerEvent [T_int] ''TestEvent'' EventRegistry_new)"

text \<open>
  The example of \<^verbatim>\<open>EventRegistry.h\<close>: an event defined with
  \<^verbatim>\<open>registerEvent<std::string&&>\<close>.
\<close>

definition registry_event1 :: "nat EventRegistry" where
  "registry_event1 = snd (registerEvent [RvalueRef T_string] ''event1'' EventRegistry_new)"

text \<open>Then \<^verbatim>\<open>registerEvent<char*>("ConstEvent")\<close>, as in the library's test program.\<close>

definition registry_ConstEvent :: "nat EventRegistry" where
  "registry_ConstEvent =
     snd (registerEvent [Pointer False False T_char] ''ConstEvent'' registry_event1)"

subsection \<open>An example event system\<close>

text \<open>
  Two topics, \<open>A\<close> (collection 0, one subscriber, the function 1) and \<open>B\<close> (collection
  1, two subscribers, the functions 2 and 3). Every function appends itself and its
  argument to the user state, a list; the function 1 called with the argument 1 also
  publishes the event \<open>E4 = (1, 4)\<close> on \<open>B\<close>. The events \<open>E1 = (0, 1)\<close>, \<open>E2 = (1, 2)\<close>
  and \<open>E3 = (0, 3)\<close> are queued.
\<close>

definition run_E4 :: "(nat, nat, (nat \<times> nat) list) behaviour" where
  "run_E4 f args u = (u @ [(f, args)], if f = 1 \<and> args = 1 then [(1, 4)] else [], None)"

text \<open>The same functions, but the function 2 throws when it is called with 2.\<close>

definition run_throwing :: "(nat, nat, (nat \<times> nat) list) behaviour" where
  "run_throwing f args u =
     (u @ [(f, args)], if f = 1 \<and> args = 1 then [(1, 4)] else [],
      if f = 2 \<and> args = 2 then Some (other_exception ''E2'') else None)"

definition system_E123 :: "(nat, nat, (nat \<times> nat) list) EventSystem" where
  "system_E123 =
     \<lparr>subscribersByEventName = [''A'' \<mapsto> 0, ''B'' \<mapsto> 1],
      collections =
        [\<lparr>argTypes = [T_int], handlers = [\<lparr>sub_id = 0, sub_function = 1\<rparr>], newIdCounter = 1\<rparr>,
         \<lparr>argTypes = [T_int],
          handlers = [\<lparr>sub_id = 0, sub_function = 2\<rparr>, \<lparr>sub_id = 1, sub_function = 3\<rparr>],
          newIdCounter = 2\<rparr>],
      dynamicQueue = [(0, 1), (1, 2), (0, 3)],
      userState = [],
      enqueued = [(0, 1), (1, 2), (0, 3)],
      fired = [],
      calls = []\<rparr>"



subsection \<open>An example collection whose id counter wraps around\<close>

text \<open>
  A collection for \<^verbatim>\<open>std::string\<close> events in a table of its own. \<open>churn\<close> subscribes
  a function and unsubscribes it again through the handle it got.
\<close>

definition churn ::
  "'f \<Rightarrow> 'f SubscriberCollection list \<Rightarrow> 'f SubscriberCollection list" where
  "churn f objs = (let (h, objs') = addSubscriber 0 f objs in snd (unsubscribe h objs'))"

text \<open>
  The function \<open>''A''\<close> is subscribed first and stays; then \<open>2 ^ 32 - 1\<close> subscriptions
  of \<open>''T''\<close> come and go.
\<close>

definition table_A :: "string SubscriberCollection list" where
  "table_A = snd (addSubscriber 0 ''A'' [SubscriberCollection_new [T_string]])"

definition table_wrapped :: "string SubscriberCollection list" where
  "table_wrapped = (churn ''T'' ^^ 4294967295) table_A"

text \<open>Two subscribers, \<open>''A''\<close> and \<open>''B''\<close>, with the ids 0 and 1.\<close>

definition table_AB :: "string SubscriberCollection list" where
  "table_AB = snd (addSubscriber 0 ''B'' table_A)"

section \<open>Properties\<close>

subsection \<open>The registry\<close>

lemma update_at_length [simp]: "length (update_at this g objs) = length objs"
  by (simp add: update_at_def)

lemma update_at_nth:
  "c < length objs \<Longrightarrow>
   update_at this g objs ! c = (if c = this then g (objs ! c) else objs ! c)"
  by (simp add: update_at_def)

lemma argTypes_addSubscriberImpl [simp]: "argTypes (snd (addSubscriberImpl f c)) = argTypes c"
  by (simp add: addSubscriberImpl_def Let_def)

lemma argTypes_removeHandler [simp]: "argTypes (removeHandler i c) = argTypes c"
  by (simp add: removeHandler_def)

lemma bound_to_registerEvent:
  "bound_to r name c S \<Longrightarrow> bound_to (snd (registerEvent Args' name' r)) name c S"
  by (auto simp: bound_to_def registerEvent_def Let_def nth_append split: option.splits)

lemma bound_to_getOrRegister:
  "bound_to r name c S \<Longrightarrow> bound_to (snd (getOrRegister Args' name' r)) name c S"
  by (auto simp: bound_to_def getOrRegister_def Let_def nth_append split: option.splits)

lemma bound_to_collections_update:
  "bound_to r name c S \<Longrightarrow> (\<And>x. argTypes (g x) = argTypes x) \<Longrightarrow>
   bound_to (r\<lparr>collections := update_at this g (collections r)\<rparr>) name c S"
  by (auto simp: bound_to_def update_at_nth)

lemma bound_to_subscribe:
  "bound_to r name c S \<Longrightarrow> bound_to (snd (subscribe Args' name' f r)) name c S"
proof -
  assume b: "bound_to r name c S"
  obtain res r' where g: "getOrRegister Args' name' r = (res, r')"
    by (cases "getOrRegister Args' name' r")
  from bound_to_getOrRegister [OF b, of Args' name'] g have b': "bound_to r' name c S"
    by simp
  show ?thesis
  proof (cases res)
    case (Inl ex)
    with g b' show ?thesis by (simp add: subscribe_def)
  next
    case (Inr e)
    with g b' show ?thesis
      by (simp add: subscribe_def addSubscriber_def bound_to_collections_update)
  qed
qed

lemma bound_to_unsubscribe:
  "bound_to r name c S \<Longrightarrow>
   bound_to (r\<lparr>collections := snd (unsubscribe h (collections r))\<rparr>) name c S"
proof (cases "subscriberCollection h")
  case None
  assume "bound_to r name c S"
  with None show ?thesis by (simp add: unsubscribe_def bound_to_def)
next
  case (Some x)
  assume "bound_to r name c S"
  with Some show ?thesis by (simp add: unsubscribe_def bound_to_collections_update)
qed

lemma bound_to_perform:
  "bound_to r name c S \<Longrightarrow> bound_to (perform a r) name c S"
  by (cases a)
     (simp_all add: bound_to_registerEvent bound_to_getOrRegister bound_to_subscribe
       bound_to_unsubscribe addSubscriber_def bound_to_collections_update)

lemma bound_to_perform_all:
  "bound_to r name c S \<Longrightarrow> bound_to (perform_all as r) name c S"
  by (induction as arbitrary: r) (simp_all add: bound_to_perform)

lemma registerEvent_bound_to:
  "registerEvent Args name r = (Inr c, r1) \<Longrightarrow> bound_to r1 name c (map decay Args)"
  by (auto simp: registerEvent_def bound_to_def Let_def SubscriberCollection_new_def
      split: option.splits)

lemma getOrRegister_bound_to:
  "getOrRegister Args name r = (Inr c, r1) \<Longrightarrow> bound_to r1 name c (map decay Args)"
  by (auto simp: getOrRegister_def bound_to_def Let_def SubscriberCollection_new_def
      dynamic_cast_def split: option.splits if_splits)

lemma getSubscribers_bound_to:
  "bound_to r name c S \<Longrightarrow>
   getSubscribers Args' name r =
     (if map decay Args' = S then Inr (Some c)
      else Inl (invalid_argument (ArgumentTypesDiffer name S Args')))"
  by (auto simp: bound_to_def getSubscribers_def dynamic_cast_def)


lemma registry_TestEvent_eq:
  "registry_TestEvent =
     \<lparr>subscribersByEventName = [''TestEvent'' \<mapsto> 0],
      collections = [\<lparr>argTypes = [T_int], handlers = [], newIdCounter = 0\<rparr>]\<rparr>"
  by (simp add: registry_TestEvent_def EventSystem_registerEvent_def getOrRegister_def
      EventRegistry_new_def SubscriberCollection_new_def decay_def T_int_def)

lemma registry_event1_eq:
  "registry_event1 =
     \<lparr>subscribersByEventName = [''event1'' \<mapsto> 0],
      collections = [\<lparr>argTypes = [T_string], handlers = [], newIdCounter = 0\<rparr>]\<rparr>"
  by (simp add: registry_event1_def registerEvent_def
      EventRegistry_new_def SubscriberCollection_new_def decay_def T_string_def)

text \<open>
  C1, as the code has it. On a name that is already registered,
  \<^verbatim>\<open>EventRegistry::registerEvent\<close> throws \<^verbatim>\<open>std::invalid_argument\<close> whatever the
  template arguments are, and the registry is unchanged. \<^verbatim>\<open>EventSystem::registerEvent\<close>
  hides that method and calls \<^verbatim>\<open>getOrRegister\<close>: it returns the existing collection
  when the decayed argument types are the same, throws \<^verbatim>\<open>std::invalid_argument\<close> for
  the argument types when they differ, and leaves the registry unchanged in both cases.
\<close>

theorem registerEvent_on_registered_name:
  "subscribersByEventName r name = Some c \<Longrightarrow>
   registerEvent Args name r = (Inl (invalid_argument (AlreadyRegistered name)), r) \<and>
   EventSystem_registerEvent Args name r =
     (if c < length (collections r) \<and> argTypes (collections r ! c) = map decay Args
      then Inr c
      else Inl (invalid_argument (ArgumentTypesDiffer name (argTypes (collections r ! c)) Args)),
      r)"
  by (simp add: registerEvent_def EventSystem_registerEvent_def getOrRegister_def
      dynamic_cast_def)

theorem registerEvent_on_registered_name_witness:
  "subscribersByEventName registry_TestEvent ''TestEvent'' = Some 0 \<and>
   registerEvent [T_int] ''TestEvent'' registry_TestEvent =
     (Inl (invalid_argument (AlreadyRegistered ''TestEvent'')), registry_TestEvent) \<and>
   EventSystem_registerEvent [T_string] ''TestEvent'' registry_TestEvent =
     (Inl (invalid_argument (ArgumentTypesDiffer ''TestEvent'' [T_int] [T_string])),
      registry_TestEvent)"
proof -
  have h: "subscribersByEventName registry_TestEvent ''TestEvent'' = Some 0"
    by (simp add: registry_TestEvent_eq)
  from registerEvent_on_registered_name [OF h, of "[T_int]"]
    registerEvent_on_registered_name [OF h, of "[T_string]"] h
  show ?thesis
    by (simp add: registry_TestEvent_eq decay_def T_int_def T_string_def)
qed

text \<open>
  C1 as stated fails on the facade: after \<^verbatim>\<open>es.registerEvent<int>("TestEvent")\<close> the
  name is registered, and a second \<^verbatim>\<open>es.registerEvent<int>("TestEvent")\<close> on the
  \<^verbatim>\<open>EventSystem\<close> returns the existing collection instead of throwing.
\<close>

theorem facade_registerEvent_twice_succeeds:
  "subscribersByEventName registry_TestEvent ''TestEvent'' = Some 0 \<and>
   EventSystem_registerEvent [T_int] ''TestEvent'' registry_TestEvent =
     (Inr 0, registry_TestEvent)"
  by (simp add: registry_TestEvent_eq EventSystem_registerEvent_def getOrRegister_def
      dynamic_cast_def decay_def T_int_def)

text \<open>
  C5. Let a name be registered with template arguments \<open>Args\<close>, by \<^verbatim>\<open>registerEvent\<close> or
  by \<^verbatim>\<open>getOrRegister\<close>, and let \<open>c\<close> be the collection that call returned. After any
  sequence of registrations, subscriptions and unsubscriptions,
  \<^verbatim>\<open>getSubscribers<Args'...>(name)\<close> returns the same \<open>c\<close> when \<open>Args'\<close> and \<open>Args\<close> decay
  to the same types, and throws \<^verbatim>\<open>std::invalid_argument\<close> for the argument types when
  they do not. Decay removes a reference and the top-level const/volatile of a type,
  and leaves the type a pointer points to as it is, so pointers to \<open>T\<close> and to
  \<open>const T\<close> decay to different types.
\<close>

theorem getSubscribers_after_registration:
  assumes "registerEvent Args name r = (Inr c, r1) \<or> getOrRegister Args name r = (Inr c, r1)"
  shows "getSubscribers Args' name (perform_all as r1) =
           (if map decay Args' = map decay Args then Inr (Some c)
            else Inl (invalid_argument (ArgumentTypesDiffer name (map decay Args) Args'))) \<and>
         decay (LvalueRef (Named k v n)) = Named False False n \<and>
         decay (RvalueRef (Named k v n)) = Named False False n \<and>
         decay (Named k v n) = Named False False n \<and>
         decay (LvalueRef (Pointer k v T)) = Pointer False False T \<and>
         decay (Pointer k v T) = Pointer False False T \<and>
         (map decay [Pointer k v T] = map decay [Pointer k' v' T']) = (T = T')"
proof -
  from assms have "bound_to r1 name c (map decay Args)"
    using registerEvent_bound_to getOrRegister_bound_to by blast
  then have "bound_to (perform_all as r1) name c (map decay Args)"
    by (rule bound_to_perform_all)
  then have "getSubscribers Args' name (perform_all as r1) =
           (if map decay Args' = map decay Args then Inr (Some c)
            else Inl (invalid_argument (ArgumentTypesDiffer name (map decay Args) Args')))"
    by (rule getSubscribers_bound_to)
  then show ?thesis by (simp add: decay_def)
qed

theorem getSubscribers_after_registration_witness:
  "registerEvent [RvalueRef T_string] ''event1'' (EventRegistry_new :: nat EventRegistry) =
     (Inr 0, registry_event1) \<and>
   getSubscribers [LvalueRef (Named True False ''std::string'')] ''event1''
     (perform_all [DoAddSubscriber 0 7, DoRegisterEvent [T_int] ''event2''] registry_event1) =
     Inr (Some 0) \<and>
   getSubscribers [T_int] ''event1''
     (perform_all [DoAddSubscriber 0 7, DoRegisterEvent [T_int] ''event2''] registry_event1) =
     Inl (invalid_argument (ArgumentTypesDiffer ''event1'' [T_string] [T_int])) \<and>
   registerEvent [Pointer False False T_char] ''ConstEvent'' registry_event1 =
     (Inr 1, registry_ConstEvent) \<and>
   getSubscribers [Pointer True False T_char] ''ConstEvent'' (perform_all [] registry_ConstEvent) =
     Inr (Some 1) \<and>
   getSubscribers [Pointer False False (Named True False ''char'')] ''ConstEvent''
     (perform_all [] registry_ConstEvent) =
     Inl (invalid_argument
       (ArgumentTypesDiffer ''ConstEvent'' [Pointer False False T_char]
          [Pointer False False (Named True False ''char'')]))"
proof -
  have h: "registerEvent [RvalueRef T_string] ''event1'' (EventRegistry_new :: nat EventRegistry) =
     (Inr 0, registry_event1)"
    by (simp add: registry_event1_def registerEvent_def EventRegistry_new_def)
  then have h': "registerEvent [RvalueRef T_string] ''event1'' (EventRegistry_new :: nat EventRegistry) =
     (Inr 0, registry_event1) \<or>
     getOrRegister [RvalueRef T_string] ''event1'' (EventRegistry_new :: nat EventRegistry) =
     (Inr 0, registry_event1)"
    by simp
  have k: "registerEvent [Pointer False False T_char] ''ConstEvent'' registry_event1 =
     (Inr 1, registry_ConstEvent)"
    by (simp add: registry_ConstEvent_def registerEvent_def registry_event1_eq)
  then have k': "registerEvent [Pointer False False T_char] ''ConstEvent'' registry_event1 =
     (Inr 1, registry_ConstEvent) \<or>
     getOrRegister [Pointer False False T_char] ''ConstEvent'' registry_event1 =
     (Inr 1, registry_ConstEvent)"
    by simp
  note t = getSubscribers_after_registration [OF h',
      where as = "[DoAddSubscriber 0 7, DoRegisterEvent [T_int] ''event2'']"]
  note u = getSubscribers_after_registration [OF k', where as = "[]"]
  from t [of "[LvalueRef (Named True False ''std::string'')]"] t [of "[T_int]"]
    u [of "[Pointer True False T_char]"]
    u [of "[Pointer False False (Named True False ''char'')]"] h k
  show ?thesis
    by (simp add: decay_def T_string_def T_int_def T_char_def del: perform_all.simps)
qed

text \<open>
  C10. \<^verbatim>\<open>hasRegisteredEvent<Args...>(name)\<close> is true exactly when the name is registered
  and the collection it is bound to has the decayed \<open>Args\<close> as template arguments. It
  is true exactly when \<^verbatim>\<open>getSubscribers<Args...>(name)\<close> returns a collection, and false
  both where \<^verbatim>\<open>getSubscribers\<close> returns \<^verbatim>\<open>NULL\<close> (no such name) and where it throws
  (other argument types): the query does not tell the two apart.
\<close>

theorem hasRegisteredEvent_characterisation:
  "hasRegisteredEvent Args name r =
     (\<exists>c. subscribersByEventName r name = Some c \<and> c < length (collections r) \<and>
          argTypes (collections r ! c) = map decay Args) \<and>
   hasRegisteredEvent Args name r = (\<exists>c. getSubscribers Args name r = Inr (Some c)) \<and>
   (case getSubscribers Args name r of
      Inl ex \<Rightarrow> \<not> hasRegisteredEvent Args name r
    | Inr None \<Rightarrow> \<not> hasRegisteredEvent Args name r \<and> subscribersByEventName r name = None
    | Inr (Some c) \<Rightarrow> hasRegisteredEvent Args name r)"
  by (auto simp: hasRegisteredEvent_def getSubscribers_def dynamic_cast_def split: option.splits)

subsection \<open>The queue\<close>

lemma enqueue_all_eq:
  "enqueue_all evs w =
     w\<lparr>dynamicQueue := dynamicQueue w @ evs, enqueued := enqueued w @ evs\<rparr>"
  by (induction evs arbitrary: w) (simp_all add: enqueue_tuple_def)

lemma invoke_eq:
  "run f args (userState w) = (u, evs, thrown) \<Longrightarrow>
   invoke run f args w =
     (thrown,
      w\<lparr>dynamicQueue := dynamicQueue w @ evs, userState := u,
        enqueued := enqueued w @ evs, calls := calls w @ [(f, args)]\<rparr>)"
  by (simp add: invoke_def enqueue_all_eq)



text \<open>
  The calls that were made are the first calls of the sequence, all of them when
  nothing was thrown, and then the user state is the fold of the functions over it.
\<close>

lemma run_sequence_made:
  "run_sequence run cs u = (u', evs, made, thrown) \<Longrightarrow>
   (\<exists>n\<le>length cs. made = take n cs) \<and>
   (thrown = None \<longrightarrow>
      made = cs \<and> u' = foldl (\<lambda>v c. fst (run (fst c) (snd c) v)) u cs) \<and>
   (thrown \<noteq> None \<longrightarrow> made \<noteq> [])"
proof (induction cs arbitrary: u u' evs made thrown)
  case Nil
  then show ?case by simp
next
  case (Cons c cs)
  obtain v es t where r: "run (fst c) (snd c) u = (v, es, t)"
    by (cases "run (fst c) (snd c) u") auto
  show ?case
  proof (cases t)
    case (Some ex)
    with Cons.prems r have "made = [c]" "thrown = Some ex" by simp_all
    then show ?thesis by (auto intro: exI [of _ 1])
  next
    case None
    obtain v' evs' made' t' where s: "run_sequence run cs v = (v', evs', made', t')"
      by (cases "run_sequence run cs v") auto
    from Cons.prems r s None have e: "u' = v'" "made = c # made'" "thrown = t'"
      by simp_all
    from Cons.IH [OF s] obtain n where n: "n \<le> length cs" "made' = take n cs" by blast
    from n e have "Suc n \<le> length (c # cs) \<and> made = take (Suc n) (c # cs)" by simp
    then have 1: "\<exists>n\<le>length (c # cs). made = take n (c # cs)" by blast
    from Cons.IH [OF s] e r have 2: "thrown = None \<longrightarrow>
      made = c # cs \<and> u' = foldl (\<lambda>v c. fst (run (fst c) (snd c) v)) u (c # cs)"
      by simp
    from e have 3: "thrown \<noteq> None \<longrightarrow> made \<noteq> []" by simp
    from 1 2 3 show ?thesis by simp
  qed
qed

text \<open>
  The loop over the subscribers of a collection makes the calls of \<open>run_sequence\<close>: it
  leaves their user state, appends the events they enqueued to the queue, and ends
  with their exception.
\<close>

lemma call_loop_eq:
  "run_sequence run (map (\<lambda>h. (sub_function h, args)) hs) (userState w) =
     (u, evs, made, thrown) \<Longrightarrow>
   call_loop run hs args w =
     (thrown,
      w\<lparr>dynamicQueue := dynamicQueue w @ evs, userState := u,
        enqueued := enqueued w @ evs, calls := calls w @ made\<rparr>)"
proof (induction hs arbitrary: w u evs made thrown)
  case Nil
  then show ?case by simp
next
  case (Cons h hs)
  obtain v es t where r: "run (sub_function h) args (userState w) = (v, es, t)"
    by (cases "run (sub_function h) args (userState w)") auto
  let ?w1 = "w\<lparr>dynamicQueue := dynamicQueue w @ es, userState := v,
        enqueued := enqueued w @ es, calls := calls w @ [(sub_function h, args)]\<rparr>"
  from r have i: "invoke run (sub_function h) args w = (t, ?w1)" by (rule invoke_eq)
  show ?case
  proof (cases t)
    case (Some ex)
    with Cons.prems r have e: "u = v" "evs = es" "made = [(sub_function h, args)]"
      "thrown = Some ex"
      by simp_all
    with i Some show ?thesis by simp
  next
    case None
    obtain v' evs' made' t' where
      s: "run_sequence run (map (\<lambda>h. (sub_function h, args)) hs) v = (v', evs', made', t')"
      by (cases "run_sequence run (map (\<lambda>h. (sub_function h, args)) hs) v") auto
    from Cons.prems r s None have e: "u = v'" "evs = es @ evs'"
      "made = (sub_function h, args) # made'" "thrown = t'"
      by simp_all
    from s have "run_sequence run (map (\<lambda>h. (sub_function h, args)) hs) (userState ?w1) =
       (v', evs', made', t')" by simp
    from Cons.IH [OF this] i None e show ?thesis by simp
  qed
qed

lemma call_eq:
  "run_sequence run (map (\<lambda>h. (sub_function h, args)) (handlers_at (collections w) this))
     (userState w) = (u, evs, made, thrown) \<Longrightarrow>
   call run this args w =
     (thrown,
      w\<lparr>dynamicQueue := dynamicQueue w @ evs, userState := u,
        enqueued := enqueued w @ evs, calls := calls w @ made\<rparr>)"
  by (simp add: call_def call_loop_eq)










subsection \<open>publish and call\<close>

lemma getSubscribers_cases:
  "(subscribersByEventName r name = None \<and> getSubscribers Args name r = Inr None) \<or>
   (\<exists>c. subscribersByEventName r name = Some c \<and>
        (getSubscribers Args name r = Inr (Some c) \<or> (\<exists>ex. getSubscribers Args name r = Inl ex)))"
  by (auto simp: getSubscribers_def dynamic_cast_def split: option.splits if_splits)

text \<open>
  C6, as the code has it. \<^verbatim>\<open>publish\<close> and \<^verbatim>\<open>call\<close> return false exactly when the name
  is not registered, and then the event system is unchanged: nothing is enqueued, no
  handler runs, and nothing is thrown. When the name is bound to a collection with
  the decayed argument types, \<^verbatim>\<open>publish\<close> appends the event to the queue and returns
  true, and \<^verbatim>\<open>call\<close> makes the calls of the collection's subscribers at once, in
  registration order, up to the first that throws, and fires no queued event: the
  user state it leaves is theirs and the events they enqueued are appended to the
  queue. When no subscriber throws, all of them have been called, the user state is
  the fold of their functions, and \<^verbatim>\<open>call\<close> returns true; when one throws, its
  exception leaves \<^verbatim>\<open>call\<close> in place of a result.
\<close>

theorem publish_and_call:
  assumes "run_sequence run
             (map (\<lambda>h. (sub_function h, args)) (handlers_at (collections w) e))
             (userState w) = (u, evs, made, thrown)"
  shows
  "(fst (publish Args name args w) = Inr False) = (subscribersByEventName w name = None) \<and>
   (fst (EventSystem_call run Args name args w) = Inr False) =
     (subscribersByEventName w name = None) \<and>
   (subscribersByEventName w name = None \<longrightarrow>
      publish Args name args w = (Inr False, w) \<and>
      EventSystem_call run Args name args w = (Inr False, w)) \<and>
   (bound_to w name e (map decay Args) \<longrightarrow>
      publish Args name args w =
        (Inr True, w\<lparr>dynamicQueue := dynamicQueue w @ [(e, args)],
                     enqueued := enqueued w @ [(e, args)]\<rparr>) \<and>
      EventSystem_call run Args name args w =
        ((case thrown of None \<Rightarrow> Inr True | Some ex \<Rightarrow> Inl ex),
         w\<lparr>dynamicQueue := dynamicQueue w @ evs, userState := u,
           enqueued := enqueued w @ evs, calls := calls w @ made\<rparr>) \<and>
      (\<exists>n\<le>length (handlers (collections w ! e)).
         made = take n (map (\<lambda>h. (sub_function h, args)) (handlers (collections w ! e)))) \<and>
      (thrown = None \<longrightarrow>
         made = map (\<lambda>h. (sub_function h, args)) (handlers (collections w ! e)) \<and>
         u = foldl (\<lambda>v c. fst (run (fst c) (snd c) v)) (userState w)
               (map (\<lambda>h. (sub_function h, args)) (handlers (collections w ! e)))))"
proof -
  have 1: "(fst (publish Args name args w) = Inr False) = (subscribersByEventName w name = None)"
    using getSubscribers_cases [of w name Args]
    by (auto simp: publish_def)
  have 2: "(fst (EventSystem_call run Args name args w) = Inr False) =
     (subscribersByEventName w name = None)"
    using getSubscribers_cases [of w name Args]
    by (auto simp: EventSystem_call_def split: prod.splits option.splits)
  have 3: "subscribersByEventName w name = None \<longrightarrow>
      publish Args name args w = (Inr False, w) \<and>
      EventSystem_call run Args name args w = (Inr False, w)"
    by (simp add: publish_def EventSystem_call_def getSubscribers_def)
  have 4: "bound_to w name e (map decay Args) \<longrightarrow>
      publish Args name args w =
        (Inr True, w\<lparr>dynamicQueue := dynamicQueue w @ [(e, args)],
                     enqueued := enqueued w @ [(e, args)]\<rparr>) \<and>
      EventSystem_call run Args name args w =
        ((case thrown of None \<Rightarrow> Inr True | Some ex \<Rightarrow> Inl ex),
         w\<lparr>dynamicQueue := dynamicQueue w @ evs, userState := u,
           enqueued := enqueued w @ evs, calls := calls w @ made\<rparr>) \<and>
      (\<exists>n\<le>length (handlers (collections w ! e)).
         made = take n (map (\<lambda>h. (sub_function h, args)) (handlers (collections w ! e)))) \<and>
      (thrown = None \<longrightarrow>
         made = map (\<lambda>h. (sub_function h, args)) (handlers (collections w ! e)) \<and>
         u = foldl (\<lambda>v c. fst (run (fst c) (snd c) v)) (userState w)
               (map (\<lambda>h. (sub_function h, args)) (handlers (collections w ! e))))"
  proof
    assume b: "bound_to w name e (map decay Args)"
    from getSubscribers_bound_to [OF b, of Args]
    have g: "getSubscribers Args name w = Inr (Some e)" by simp
    from b have e: "handlers_at (collections w) e = handlers (collections w ! e)"
      by (simp add: bound_to_def handlers_at_def)
    from g have p: "publish Args name args w =
        (Inr True, w\<lparr>dynamicQueue := dynamicQueue w @ [(e, args)],
                     enqueued := enqueued w @ [(e, args)]\<rparr>)"
      by (simp add: publish_def enqueue_def enqueue_tuple_def)
    from g call_eq [OF assms] have c: "EventSystem_call run Args name args w =
        ((case thrown of None \<Rightarrow> Inr True | Some ex \<Rightarrow> Inl ex),
         w\<lparr>dynamicQueue := dynamicQueue w @ evs, userState := u,
           enqueued := enqueued w @ evs, calls := calls w @ made\<rparr>)"
      by (cases thrown) (simp_all add: EventSystem_call_def)
    from run_sequence_made [OF assms] e
    have m: "(\<exists>n\<le>length (handlers (collections w ! e)).
         made = take n (map (\<lambda>h. (sub_function h, args)) (handlers (collections w ! e)))) \<and>
      (thrown = None \<longrightarrow>
         made = map (\<lambda>h. (sub_function h, args)) (handlers (collections w ! e)) \<and>
         u = foldl (\<lambda>v c. fst (run (fst c) (snd c) v)) (userState w)
               (map (\<lambda>h. (sub_function h, args)) (handlers (collections w ! e))))"
      by simp
    from p c m show "publish Args name args w =
        (Inr True, w\<lparr>dynamicQueue := dynamicQueue w @ [(e, args)],
                     enqueued := enqueued w @ [(e, args)]\<rparr>) \<and>
      EventSystem_call run Args name args w =
        ((case thrown of None \<Rightarrow> Inr True | Some ex \<Rightarrow> Inl ex),
         w\<lparr>dynamicQueue := dynamicQueue w @ evs, userState := u,
           enqueued := enqueued w @ evs, calls := calls w @ made\<rparr>) \<and>
      (\<exists>n\<le>length (handlers (collections w ! e)).
         made = take n (map (\<lambda>h. (sub_function h, args)) (handlers (collections w ! e)))) \<and>
      (thrown = None \<longrightarrow>
         made = map (\<lambda>h. (sub_function h, args)) (handlers (collections w ! e)) \<and>
         u = foldl (\<lambda>v c. fst (run (fst c) (snd c) v)) (userState w)
               (map (\<lambda>h. (sub_function h, args)) (handlers (collections w ! e))))"
      by blast
  qed
  from 1 2 3 4 show ?thesis by blast
qed

subsection \<open>processUntilEmpty\<close>












subsection \<open>The limited loop\<close>








subsection \<open>The example\<close>

lemmas eval_defs =
  process_def batch_def fire_def call_tuple_def call_def handlers_at_def invoke_def
  enqueue_tuple_def

















lemma run_sequence_call_B:
  "run_sequence run_E4
     (map (\<lambda>h. (sub_function h, 5)) (handlers_at (collections system_E123) 1))
     (userState system_E123) = ([(2, 5), (3, 5)], [], [(2, 5), (3, 5)], None)"
  by (simp add: system_E123_def handlers_at_def run_E4_def)

lemma run_sequence_call_throwing:
  "run_sequence run_throwing
     (map (\<lambda>h. (sub_function h, 2)) (handlers_at (collections system_E123) 1))
     (userState system_E123) = ([(2, 2)], [], [(2, 2)], Some (other_exception ''E2''))"
  by (simp add: system_E123_def handlers_at_def run_throwing_def)

lemma bound_to_system_E123:
  "bound_to system_E123 ''B'' 1 (map decay [LvalueRef T_int])"
  by (simp add: bound_to_def system_E123_def decay_def T_int_def)

theorem publish_and_call_witness:
  "bound_to system_E123 ''B'' 1 (map decay [LvalueRef T_int]) \<and>
   subscribersByEventName system_E123 ''C'' = None \<and>
   publish [LvalueRef T_int] ''C'' 5 system_E123 = (Inr False, system_E123) \<and>
   EventSystem_call run_E4 [LvalueRef T_int] ''C'' 5 system_E123 = (Inr False, system_E123) \<and>
   fst (publish [LvalueRef T_int] ''B'' 5 system_E123) = Inr True \<and>
   dynamicQueue (snd (publish [LvalueRef T_int] ''B'' 5 system_E123)) =
     [(0, 1), (1, 2), (0, 3), (1, 5)] \<and>
   fst (EventSystem_call run_E4 [LvalueRef T_int] ''B'' 5 system_E123) = Inr True \<and>
   userState (snd (EventSystem_call run_E4 [LvalueRef T_int] ''B'' 5 system_E123)) =
     [(2, 5), (3, 5)] \<and>
   calls (snd (EventSystem_call run_E4 [LvalueRef T_int] ''B'' 5 system_E123)) =
     [(2, 5), (3, 5)] \<and>
   dynamicQueue (snd (EventSystem_call run_E4 [LvalueRef T_int] ''B'' 5 system_E123)) =
     [(0, 1), (1, 2), (0, 3)] \<and>
   fst (EventSystem_call run_throwing [LvalueRef T_int] ''B'' 2 system_E123) =
     Inl (other_exception ''E2'') \<and>
   userState (snd (EventSystem_call run_throwing [LvalueRef T_int] ''B'' 2 system_E123)) =
     [(2, 2)]"
proof -
  note b = bound_to_system_E123
  have n: "subscribersByEventName system_E123 ''C'' = None"
    by (simp add: system_E123_def)
  from publish_and_call [OF run_sequence_call_B, of "[LvalueRef T_int]" "''C''"] n
  have 1: "publish [LvalueRef T_int] ''C'' 5 system_E123 = (Inr False, system_E123) \<and>
   EventSystem_call run_E4 [LvalueRef T_int] ''C'' 5 system_E123 = (Inr False, system_E123)"
    by blast
  from publish_and_call [OF run_sequence_call_B, of "[LvalueRef T_int]" "''B''"] b
  have 2: "publish [LvalueRef T_int] ''B'' 5 system_E123 =
        (Inr True, system_E123\<lparr>dynamicQueue := dynamicQueue system_E123 @ [(1, 5)],
                     enqueued := enqueued system_E123 @ [(1, 5)]\<rparr>) \<and>
      EventSystem_call run_E4 [LvalueRef T_int] ''B'' 5 system_E123 =
        (Inr True,
         system_E123\<lparr>dynamicQueue := dynamicQueue system_E123 @ [],
           userState := [(2, 5), (3, 5)],
           enqueued := enqueued system_E123 @ [], calls := calls system_E123 @ [(2, 5), (3, 5)]\<rparr>)"
    by simp
  from publish_and_call [OF run_sequence_call_throwing, of "[LvalueRef T_int]" "''B''"] b
  have 3: "EventSystem_call run_throwing [LvalueRef T_int] ''B'' 2 system_E123 =
        (Inl (other_exception ''E2''),
         system_E123\<lparr>dynamicQueue := dynamicQueue system_E123 @ [],
           userState := [(2, 2)],
           enqueued := enqueued system_E123 @ [], calls := calls system_E123 @ [(2, 2)]\<rparr>)"
    by simp
  from b n 1 2 3 show ?thesis by (simp add: system_E123_def)
qed

text \<open>
  C6 as stated fails when a subscriber throws: the name \<open>B\<close> is registered with the
  signature of the call, and \<^verbatim>\<open>call\<close> does not return true. The exception of the
  first subscriber leaves it, and the second subscriber, the function 3, is not
  called.
\<close>

theorem call_stops_at_throwing_handler:
  "hasRegisteredEvent [LvalueRef T_int] ''B'' system_E123 \<and>
   map sub_function (handlers_at (collections system_E123) 1) = [2, 3] \<and>
   fst (EventSystem_call run_throwing [LvalueRef T_int] ''B'' 2 system_E123) =
     Inl (other_exception ''E2'') \<and>
   calls (snd (EventSystem_call run_throwing [LvalueRef T_int] ''B'' 2 system_E123)) =
     [(2, 2)] \<and>
   userState (snd (EventSystem_call run_throwing [LvalueRef T_int] ''B'' 2 system_E123)) =
     [(2, 2)]"
  by (simp add: system_E123_def hasRegisteredEvent_def EventSystem_call_def getSubscribers_def
      dynamic_cast_def decay_def T_int_def eval_defs run_throwing_def)

subsection \<open>Subscriptions\<close>

lemma erase_first_absent:
  "handlerId \<notin> sub_id ` set ss \<Longrightarrow> erase_first handlerId ss = ss"
  by (induction ss) auto

lemma erase_first_append:
  "handlerId \<notin> sub_id ` set before \<Longrightarrow> sub_id s = handlerId \<Longrightarrow>
   erase_first handlerId (before @ s # after) = before @ after"
  by (induction before) auto

lemma erase_first_ids:
  "map sub_id ss = map f ks \<Longrightarrow> distinct ks \<Longrightarrow>
   \<exists>ks'. map sub_id (erase_first handlerId ss) = map f ks' \<and> distinct ks' \<and> set ks' \<subseteq> set ks"
proof (induction ss arbitrary: ks)
  case Nil
  then show ?case by simp
next
  case (Cons s ss)
  then obtain k ks0 where ks: "ks = k # ks0" "sub_id s = f k" "map sub_id ss = map f ks0"
    by (cases ks) auto
  show ?case
  proof (cases "sub_id s = handlerId")
    case True
    with ks Cons.prems(2) show ?thesis by (intro exI [of _ ks0]) auto
  next
    case False
    from Cons.IH [OF ks(3)] Cons.prems(2) ks(1) obtain ks' where
      "map sub_id (erase_first handlerId ss) = map f ks'" "distinct ks'" "set ks' \<subseteq> set ks0"
      by auto
    with False ks Cons.prems(2) show ?thesis by (intro exI [of _ "k # ks'"]) auto
  qed
qed

text \<open>
  After \<open>n\<close> additions the counter is \<open>n\<close> (as a 32-bit word), and the ids in the
  collection are the words of distinct numbers below \<open>n\<close>.
\<close>

lemma added_ids:
  "added n c \<Longrightarrow>
   newIdCounter c = of_nat n \<and>
   (\<exists>ks. map sub_id (handlers c) = map of_nat ks \<and> distinct ks \<and> (\<forall>k\<in>set ks. k < n))"
proof (induction rule: added.induct)
  case (added_new Args)
  show ?case by (simp add: SubscriberCollection_new_def)
next
  case (added_add n c f)
  then obtain ks where ks: "map sub_id (handlers c) = map of_nat ks" "distinct ks"
    "\<forall>k\<in>set ks. k < n" and cnt: "newIdCounter c = of_nat n" by blast
  from ks cnt have
    "map sub_id (handlers (snd (addSubscriberImpl f c))) = map of_nat (ks @ [n]) \<and>
     distinct (ks @ [n]) \<and> (\<forall>k\<in>set (ks @ [n]). k < Suc n)"
    by (auto simp: addSubscriberImpl_def Let_def)
  moreover from cnt have "newIdCounter (snd (addSubscriberImpl f c)) = of_nat (Suc n)"
    by (simp add: addSubscriberImpl_def Let_def)
  ultimately show ?case by blast
next
  case (added_remove n c handlerId)
  then obtain ks where ks: "map sub_id (handlers c) = map of_nat ks" "distinct ks"
    "\<forall>k\<in>set ks. k < n" and cnt: "newIdCounter c = of_nat n" by blast
  from erase_first_ids [OF ks(1,2), of handlerId] obtain ks' where
    "map sub_id (erase_first handlerId (handlers c)) = map of_nat ks'" "distinct ks'"
    "set ks' \<subseteq> set ks" by blast
  with ks(3) cnt show ?case by (auto simp: removeHandler_def)
qed

lemma of_nat_32_inj:
  "k < 2 ^ 32 \<Longrightarrow> k' < 2 ^ 32 \<Longrightarrow> (of_nat k :: 32 word) = of_nat k' \<Longrightarrow> k = k'"
proof -
  assume k: "k < 2 ^ 32" and k': "k' < 2 ^ 32" and eq: "(of_nat k :: 32 word) = of_nat k'"
  from eq have "unat (of_nat k :: 32 word) = unat (of_nat k' :: 32 word)" by simp
  with k k' show "k = k'" by (simp add: unat_of_nat)
qed

lemma added_distinct:
  assumes "added n c" and "n \<le> 2 ^ 32"
  shows "distinct (map sub_id (handlers c))"
proof -
  from added_ids [OF assms(1)] obtain ks where ks:
    "map sub_id (handlers c) = map of_nat ks" "distinct ks" "\<forall>k\<in>set ks. k < n" by blast
  have "inj_on (of_nat :: nat \<Rightarrow> 32 word) (set ks)"
  proof (rule inj_onI)
    fix x y assume "x \<in> set ks" "y \<in> set ks" "(of_nat x :: 32 word) = of_nat y"
    with ks(3) assms(2) show "x = y" by (intro of_nat_32_inj [of x y]) auto
  qed
  with ks(1,2) show ?thesis by (simp add: distinct_map)
qed

lemma added_fresh:
  assumes "added n c" and "n < 2 ^ 32"
  shows "newIdCounter c \<notin> sub_id ` set (handlers c)"
proof
  assume "newIdCounter c \<in> sub_id ` set (handlers c)"
  then have m: "newIdCounter c \<in> set (map sub_id (handlers c))" by simp
  from added_ids [OF assms(1)] obtain ks where ks:
    "map sub_id (handlers c) = map of_nat ks" "\<forall>k\<in>set ks. k < n"
    and cnt: "newIdCounter c = of_nat n" by blast
  from m ks(1) cnt obtain k where "k \<in> set ks" "(of_nat n :: 32 word) = of_nat k" by auto
  with ks(2) assms(2) of_nat_32_inj [of n k] show False by auto
qed

lemma distinct_append_ids:
  "distinct (map sub_id (before @ s # after)) \<Longrightarrow> sub_id s \<notin> sub_id ` set before"
  by auto

lemma distinct_removed_absent:
  "distinct (map sub_id (before @ s # after)) \<Longrightarrow> sub_id s \<notin> sub_id ` set (before @ after)"
  by auto

lemma unsubscribe_empty [simp]:
  "subscriberCollection h = None \<Longrightarrow> unsubscribe h objs = (h, objs)"
  by (simp add: unsubscribe_def)

lemma getOrRegister_allocated:
  "getOrRegister Args name r = (Inr e, r') \<Longrightarrow> e < length (collections r')"
  by (auto simp: getOrRegister_def dynamic_cast_def Let_def split: option.splits if_splits)

text \<open>
  \<^verbatim>\<open>subscribe\<close> returns the handle that \<^verbatim>\<open>addSubscriber\<close> returns on the collection of the
  name, which is a collection of the table.
\<close>

lemma subscribe_handle:
  assumes "subscribe Args name f r = (Inr h, r')"
  shows "\<exists>e r1. getOrRegister Args name r = (Inr e, r1) \<and> e < length (collections r1) \<and>
           addSubscriber e f (collections r1) = (h, collections r') \<and>
           subscriberCollection h = Some e"
proof -
  obtain res r1 where g: "getOrRegister Args name r = (res, r1)"
    by (cases "getOrRegister Args name r")
  with assms obtain e where e: "res = Inr e"
    by (cases res) (simp_all add: subscribe_def)
  from g e have "e < length (collections r1)" by (simp add: getOrRegister_allocated)
  moreover from assms g e have "addSubscriber e f (collections r1) = (h, collections r')"
    by (auto simp: subscribe_def split: prod.splits)
  moreover from this have "subscriberCollection h = Some e"
    by (auto simp: addSubscriber_def)
  ultimately show ?thesis using g e by blast
qed

text \<open>
  C8, as the code has it. Let at most \<open>2 ^ 32\<close> subscribers have been added to a
  collection since it was created, so that the 32-bit id counter has not come back to
  an id in use. Then \<^verbatim>\<open>unsubscribe\<close> on a handle for a subscriber of the collection
  removes exactly that subscriber: the others stay, in order, no other collection
  changes, and a later \<^verbatim>\<open>call\<close> makes exactly the calls of the subscribers that are
  left, in order, all of them unless one throws, and leaves what these calls did. The
  handle is empty afterwards; \<^verbatim>\<open>unsubscribe\<close> on it again, on a copy of the handle, or
  on any empty handle (default-constructed or released) changes nothing. While fewer
  than \<open>2 ^ 32\<close>
  subscribers have been added, \<^verbatim>\<open>addSubscriber\<close> returns a handle for the subscriber
  it appends, whose id no other subscriber of the collection has.
\<close>

theorem unsubscribe_removes_exactly:
  assumes valid: "this < length objs"
      and n: "added n (objs ! this)" "n \<le> 2 ^ 32"
      and h: "subscriberCollection h = Some this"
      and s: "handlers (objs ! this) = before @ s # after" "sub_id s = subscriberId h"
      and u: "unsubscribe h objs = (h', objs')"
      and w: "collections w = objs'"
  shows "handlers_at objs' this = before @ after \<and>
         length objs' = length objs \<and>
         (\<forall>x. x \<noteq> this \<longrightarrow> objs' ! x = objs ! x) \<and>
         subscriberCollection h' = None \<and>
         unsubscribe h' objs' = (h', objs') \<and>
         snd (unsubscribe h objs') = objs' \<and>
         unsubscribe SubscriptionHandle_empty objs' = (SubscriptionHandle_empty, objs') \<and>
         (\<forall>g. subscriberCollection g = None \<longrightarrow> unsubscribe g objs' = (g, objs')) \<and>
         (case run_sequence run (map (\<lambda>x. (sub_function x, args)) (before @ after))
                 (userState w) of
            (u, evs, made, thrown) \<Rightarrow>
              call run this args w =
                (thrown,
                 w\<lparr>dynamicQueue := dynamicQueue w @ evs, userState := u,
                   enqueued := enqueued w @ evs, calls := calls w @ made\<rparr>)) \<and>
         (\<exists>k\<le>length (before @ after).
            calls (snd (call run this args w)) =
              calls w @ take k (map (\<lambda>x. (sub_function x, args)) (before @ after))) \<and>
         (fst (call run this args w) = None \<longrightarrow>
            calls (snd (call run this args w)) =
              calls w @ map (\<lambda>x. (sub_function x, args)) (before @ after)) \<and>
         (n < 2 ^ 32 \<longrightarrow>
            fst (addSubscriber this f objs) =
              \<lparr>subscriberCollection = Some this, subscriberId = newIdCounter (objs ! this)\<rparr> \<and>
            handlers_at (snd (addSubscriber this f objs)) this =
              handlers (objs ! this) @
                [\<lparr>sub_id = newIdCounter (objs ! this), sub_function = f\<rparr>] \<and>
            newIdCounter (objs ! this) \<notin> sub_id ` set (handlers (objs ! this)))"
proof -
  from added_distinct [OF n] s(1)
  have d: "distinct (map sub_id (before @ s # after))" by simp
  from u h have h': "h' = h\<lparr>subscriberCollection := None\<rparr>"
    and objs': "objs' = update_at this (removeHandler (subscriberId h)) objs"
    by (simp_all add: unsubscribe_def)
  from valid s distinct_append_ids [OF d]
  have 1: "handlers_at objs' this = before @ after"
    by (simp add: objs' handlers_at_def update_at_nth removeHandler_def erase_first_append)
  have 2: "length objs' = length objs" by (simp add: objs')
  have 3: "\<forall>x. x \<noteq> this \<longrightarrow> objs' ! x = objs ! x"
    by (simp add: objs' update_at_def)
  have 4: "subscriberCollection h' = None" by (simp add: h')
  then have 5: "unsubscribe h' objs' = (h', objs')" by simp
  have "update_at this (removeHandler (subscriberId h)) objs' = objs'"
  proof -
    from valid 2 have v: "this < length objs'" by simp
    from 1 v have hs: "handlers (objs' ! this) = before @ after"
      by (simp add: handlers_at_def)
    from distinct_removed_absent [OF d] s(2)
    have "erase_first (subscriberId h) (before @ after) = before @ after"
      by (intro erase_first_absent) simp
    with hs have "erase_first (subscriberId h) (handlers (objs' ! this)) = handlers (objs' ! this)"
      by simp
    then have "removeHandler (subscriberId h) (objs' ! this) = objs' ! this"
      by (simp add: removeHandler_def)
    then show ?thesis
      by (simp add: update_at_def)
  qed
  with h have 6: "snd (unsubscribe h objs') = objs'" by (simp add: unsubscribe_def)
  have 7: "unsubscribe SubscriptionHandle_empty objs' = (SubscriptionHandle_empty, objs')"
    by (simp add: SubscriptionHandle_empty_def)
  obtain u evs made thrown where
    r: "run_sequence run (map (\<lambda>x. (sub_function x, args)) (before @ after)) (userState w) =
          (u, evs, made, thrown)"
    by (cases "run_sequence run (map (\<lambda>x. (sub_function x, args)) (before @ after))
          (userState w)") auto
  from w 1 r have "run_sequence run
      (map (\<lambda>x. (sub_function x, args)) (handlers_at (collections w) this)) (userState w) =
          (u, evs, made, thrown)" by simp
  then have c: "call run this args w =
                (thrown,
                 w\<lparr>dynamicQueue := dynamicQueue w @ evs, userState := u,
                   enqueued := enqueued w @ evs, calls := calls w @ made\<rparr>)"
    by (rule call_eq)
  with r have 8: "case run_sequence run (map (\<lambda>x. (sub_function x, args)) (before @ after))
                 (userState w) of
            (u, evs, made, thrown) \<Rightarrow>
              call run this args w =
                (thrown,
                 w\<lparr>dynamicQueue := dynamicQueue w @ evs, userState := u,
                   enqueued := enqueued w @ evs, calls := calls w @ made\<rparr>)"
    by simp
  from run_sequence_made [OF r] c
  have 11: "\<exists>k\<le>length (before @ after).
            calls (snd (call run this args w)) =
              calls w @ take k (map (\<lambda>x. (sub_function x, args)) (before @ after))"
    by (auto simp: take_map)
  from run_sequence_made [OF r] c
  have 12: "fst (call run this args w) = None \<longrightarrow>
            calls (snd (call run this args w)) =
              calls w @ map (\<lambda>x. (sub_function x, args)) (before @ after)"
    by simp
  have 9: "n < 2 ^ 32 \<longrightarrow>
            fst (addSubscriber this f objs) =
              \<lparr>subscriberCollection = Some this, subscriberId = newIdCounter (objs ! this)\<rparr> \<and>
            handlers_at (snd (addSubscriber this f objs)) this =
              handlers (objs ! this) @
                [\<lparr>sub_id = newIdCounter (objs ! this), sub_function = f\<rparr>] \<and>
            newIdCounter (objs ! this) \<notin> sub_id ` set (handlers (objs ! this))"
    using valid added_fresh [OF n(1)]
    by (simp add: addSubscriber_def addSubscriberImpl_def Let_def handlers_at_def update_at_nth)
  have 10: "\<forall>g. subscriberCollection g = None \<longrightarrow> unsubscribe g objs' = (g, objs')"
    by simp
  from 1 2 3 4 5 6 7 8 11 12 9 10 show ?thesis by blast
qed


lemma table_A_eq:
  "table_A =
     [\<lparr>argTypes = [T_string], handlers = [\<lparr>sub_id = 0, sub_function = ''A''\<rparr>],
       newIdCounter = 1\<rparr>]"
  by (simp add: table_A_def addSubscriber_def update_at_def addSubscriberImpl_def
      SubscriberCollection_new_def)

lemma table_AB_eq:
  "table_AB =
     [\<lparr>argTypes = [T_string],
       handlers = [\<lparr>sub_id = 0, sub_function = ''A''\<rparr>, \<lparr>sub_id = 1, sub_function = ''B''\<rparr>],
       newIdCounter = 2\<rparr>]"
  by (simp add: table_AB_def table_A_eq addSubscriber_def update_at_def addSubscriberImpl_def)

lemma added_table_AB: "added 2 (table_AB ! 0)"
proof -
  have "added (Suc (Suc 0))
     (snd (addSubscriberImpl ''B'' (snd (addSubscriberImpl ''A''
        (SubscriberCollection_new [T_string])))))"
    by (intro added.intros)
  moreover have "table_AB ! 0 =
     snd (addSubscriberImpl ''B'' (snd (addSubscriberImpl ''A''
        (SubscriberCollection_new [T_string]))))"
    by (simp add: table_AB_def table_A_def addSubscriber_def update_at_def)
  ultimately show ?thesis by (simp add: numeral_2_eq_2)
qed

theorem unsubscribe_removes_exactly_witness:
  "unsubscribe \<lparr>subscriberCollection = Some 0, subscriberId = 0\<rparr> table_AB =
     (SubscriptionHandle_empty,
      [\<lparr>argTypes = [T_string], handlers = [\<lparr>sub_id = 1, sub_function = ''B''\<rparr>],
        newIdCounter = 2\<rparr>]) \<and>
   handlers_at (snd (unsubscribe \<lparr>subscriberCollection = Some 0, subscriberId = 0\<rparr> table_AB)) 0 =
     [\<lparr>sub_id = 1, sub_function = ''B''\<rparr>] \<and>
   unsubscribe SubscriptionHandle_empty
     (snd (unsubscribe \<lparr>subscriberCollection = Some 0, subscriberId = 0\<rparr> table_AB)) =
     (SubscriptionHandle_empty,
      snd (unsubscribe \<lparr>subscriberCollection = Some 0, subscriberId = 0\<rparr> table_AB)) \<and>
   fst (addSubscriber 0 ''C'' table_AB) = \<lparr>subscriberCollection = Some 0, subscriberId = 2\<rparr>"
proof -
  let ?h = "\<lparr>subscriberCollection = Some 0, subscriberId = 0\<rparr>"
  let ?s = "\<lparr>sub_id = 0, sub_function = ''A''\<rparr>"
  let ?objs' = "[\<lparr>argTypes = [T_string], handlers = [\<lparr>sub_id = 1, sub_function = ''B''\<rparr>],
        newIdCounter = 2 :: 32 word\<rparr>]"
  let ?w = "(EventSystem_new [] :: (string, nat, nat list) EventSystem)\<lparr>collections := ?objs'\<rparr>"
  have u: "unsubscribe ?h table_AB = (SubscriptionHandle_empty, ?objs')"
    by (simp add: unsubscribe_def table_AB_eq update_at_def removeHandler_def
        SubscriptionHandle_empty_def)
  have p1: "0 < length table_AB" by (simp add: table_AB_eq)
  have p3: "(2::nat) \<le> 2 ^ 32" by simp
  have p4: "subscriberCollection ?h = Some 0" by simp
  have p5: "handlers (table_AB ! 0) = [] @ ?s # [\<lparr>sub_id = 1, sub_function = ''B''\<rparr>]"
    by (simp add: table_AB_eq)
  have p6: "sub_id ?s = subscriberId ?h" by simp
  have p8: "collections ?w = ?objs'" by simp
  note t = unsubscribe_removes_exactly [OF p1 added_table_AB p3 p4 p5 p6 u p8,
      where f = "''C''" and run = "\<lambda>f a u. (u, [], None)" and args = 0]
  from t u show ?thesis by (simp add: table_AB_eq)
qed

text \<open>The id counter after \<open>k\<close> subscriptions that came and went.\<close>

lemma of_nat_32_nonzero:
  assumes "0 < k" and "k < 4294967296"
  shows "(of_nat k :: 32 word) \<noteq> 0"
proof
  assume "(of_nat k :: 32 word) = 0"
  then have "(2::nat) ^ 32 dvd k" by (simp add: word_of_nat_eq_0_iff)
  then have d: "(4294967296::nat) dvd k" by simp
  from d assms(1) have "4294967296 \<le> k" by (rule dvd_imp_le)
  with assms(2) show False by linarith
qed

lemma churn_step:
  assumes "(0 :: 32 word) \<noteq> c"
  shows "churn ''T''
     [\<lparr>argTypes = [T_string], handlers = [\<lparr>sub_id = 0, sub_function = ''A''\<rparr>],
       newIdCounter = c\<rparr>] =
     [\<lparr>argTypes = [T_string], handlers = [\<lparr>sub_id = 0, sub_function = ''A''\<rparr>],
       newIdCounter = c + 1\<rparr>]"
  using assms
  by (simp add: churn_def addSubscriber_def update_at_def addSubscriberImpl_def
      unsubscribe_def removeHandler_def)

lemma churn_funpow:
  "k < 4294967296 \<Longrightarrow>
   (churn ''T'' ^^ k) table_A =
     [\<lparr>argTypes = [T_string], handlers = [\<lparr>sub_id = 0, sub_function = ''A''\<rparr>],
       newIdCounter = of_nat k + 1\<rparr>]"
proof (induction k)
  case 0
  show ?case by (simp add: table_A_eq)
next
  case (Suc k)
  from Suc.prems have lt: "k + 1 < 4294967296" by linarith
  then have "k < 4294967296" by linarith
  then have IH: "(churn ''T'' ^^ k) table_A =
     [\<lparr>argTypes = [T_string], handlers = [\<lparr>sub_id = 0, sub_function = ''A''\<rparr>],
       newIdCounter = of_nat k + 1\<rparr>]" by (rule Suc.IH)
  have s: "(of_nat (Suc k) :: 32 word) = of_nat k + 1" by simp
  have p: "0 < k + 1" by simp
  have "(of_nat (k + 1) :: 32 word) \<noteq> 0" using p lt
    by (rule of_nat_32_nonzero)
  then have "(of_nat k + 1 :: 32 word) \<noteq> 0" by (simp add: add.commute)
  then have ne: "(0 :: 32 word) \<noteq> of_nat k + 1" by (rule not_sym)
  have "(churn ''T'' ^^ Suc k) table_A = churn ''T'' ((churn ''T'' ^^ k) table_A)" by simp
  also have "\<dots> = [\<lparr>argTypes = [T_string], handlers = [\<lparr>sub_id = 0, sub_function = ''A''\<rparr>],
       newIdCounter = (of_nat k + 1) + 1\<rparr>]"
    unfolding IH by (rule churn_step [OF ne])
  finally show ?case unfolding s .
qed

lemma table_wrapped_eq:
  "table_wrapped =
     [\<lparr>argTypes = [T_string], handlers = [\<lparr>sub_id = 0, sub_function = ''A''\<rparr>],
       newIdCounter = 0\<rparr>]"
proof -
  have "(of_nat 4294967295 + 1 :: 32 word) = 0" by simp
  moreover have "(4294967295 :: nat) < 4294967296" by simp
  ultimately show ?thesis
    using churn_funpow [of 4294967295] by (simp only: table_wrapped_def)
qed

text \<open>
  C8 as stated fails once the counter has wrapped around. \<open>''A''\<close> is subscribed
  (id 0), \<open>2 ^ 32 - 1\<close> other subscriptions come and go, and the counter is 0 again.
  The handle that \<^verbatim>\<open>addSubscriber\<close> returns for \<open>''B''\<close> has the id 0, and
  \<^verbatim>\<open>unsubscribe\<close> on it removes \<open>''A''\<close>, the first subscriber with that id: \<open>''B''\<close>
  stays subscribed and is called by every later \<^verbatim>\<open>call\<close>.
\<close>

theorem unsubscribe_after_wrap_removes_other_handler:
  "fst (addSubscriber 0 ''B'' table_wrapped) = \<lparr>subscriberCollection = Some 0, subscriberId = 0\<rparr> \<and>
   map sub_function (handlers_at (snd (addSubscriber 0 ''B'' table_wrapped)) 0) = [''A'', ''B''] \<and>
   map sub_function
     (handlers_at (snd (unsubscribe (fst (addSubscriber 0 ''B'' table_wrapped))
                         (snd (addSubscriber 0 ''B'' table_wrapped)))) 0) = [''B'']"
  by (simp add: table_wrapped_eq addSubscriber_def update_at_def addSubscriberImpl_def
      unsubscribe_def removeHandler_def handlers_at_def)

subsection \<open>Release\<close>

lemma release_keeps_subscription:
  "ScopedSubscription_release this objs = (this, this\<lparr>subscriberCollection := None\<rparr>, objs) \<and>
   ScopedSubscription_destroy (fst (snd (ScopedSubscription_release this objs))) objs = objs"
  by (simp add: ScopedSubscription_release_def clear_handle_def ScopedSubscription_destroy_def)

text \<open>
  The \<^verbatim>\<open>release\<close> that assigns removes the subscriber of every handle that is not
  empty.
\<close>

lemma release_assign_unsubscribes:
  "subscriberCollection this = Some c \<Longrightarrow>
   ScopedSubscription_release_assign this objs =
     (this, SubscriptionHandle_empty, update_at c (removeHandler (subscriberId this)) objs)"
  by (simp add: ScopedSubscription_release_assign_def ScopedSubscription_assign_def
      unsubscribe_def)

text \<open>
  C9 fails for the \<^verbatim>\<open>ScopedSubscription\<close> inside \<^verbatim>\<open>EventSubscriberCollection.h\<close>: its
  \<^verbatim>\<open>release\<close> assigns an empty handle to \<^verbatim>\<open>*this\<close>, the assignment unsubscribes first,
  and the subscriber \<open>''A''\<close> is gone from the collection although the handle that
  \<^verbatim>\<open>release\<close> returned still names it. The \<^verbatim>\<open>release\<close> of \<^verbatim>\<open>EventSubscription.h\<close>
  leaves the collection as it is.
\<close>

theorem release_by_assignment_unsubscribes:
  "handlers_at table_A 0 = [\<lparr>sub_id = 0, sub_function = ''A''\<rparr>] \<and>
   ScopedSubscription_release_assign \<lparr>subscriberCollection = Some 0, subscriberId = 0\<rparr> table_A =
     (\<lparr>subscriberCollection = Some 0, subscriberId = 0\<rparr>, SubscriptionHandle_empty,
      [\<lparr>argTypes = [T_string], handlers = [], newIdCounter = 1\<rparr>]) \<and>
   ScopedSubscription_release \<lparr>subscriberCollection = Some 0, subscriberId = 0\<rparr> table_A =
     (\<lparr>subscriberCollection = Some 0, subscriberId = 0\<rparr>,
      \<lparr>subscriberCollection = None, subscriberId = 0\<rparr>, table_A)"
  by (simp add: table_A_eq ScopedSubscription_release_assign_def ScopedSubscription_assign_def
      ScopedSubscription_release_def clear_handle_def
      unsubscribe_def update_at_def removeHandler_def handlers_at_def SubscriptionHandle_empty_def)

subsection \<open>Parsing\<close>

lemma not_space_if_digit: "isdigit ch \<Longrightarrow> \<not> isspace ch"
  by (auto simp: isdigit_def isspace_def)

lemma not_sign_if_digit: "isdigit ch \<Longrightarrow> ch \<noteq> CHR ''-'' \<and> ch \<noteq> CHR ''+''"
  by (auto simp: isdigit_def)

text \<open>
  Whatever follows the digits of a number is ignored: the parser returns for
  \<open>ds @ rest\<close> what it returns for the digits \<open>ds\<close> alone.
\<close>

lemma integral_parse_ignores_rest:
  assumes "ds \<noteq> []" and "\<forall>ch\<in>set ds. isdigit ch" and "rest = [] \<or> \<not> isdigit (hd rest)"
  shows "ParameterValueParser_integral_parse (ds @ rest) = ParameterValueParser_integral_parse ds"
proof -
  from assms(1,2) have d: "isdigit (hd ds)" by (cases ds) auto
  from assms(1) d not_space_if_digit have a: "dropWhile isspace (ds @ rest) = ds @ rest"
    and b: "dropWhile isspace ds = ds"
    by (cases ds; simp)+
  from assms(1) have h: "hd (ds @ rest) = hd ds" by simp
  from not_sign_if_digit [OF d] have s: "hd ds \<noteq> CHR ''-''" "hd ds \<noteq> CHR ''+''" by simp_all
  from assms(3) have t: "takeWhile isdigit rest = []"
    by (cases rest) auto
  from assms(2) have "takeWhile isdigit (ds @ rest) = ds @ takeWhile isdigit rest"
    by (simp add: takeWhile_append2)
  with t have 1: "takeWhile isdigit (ds @ rest) = ds" by simp
  from assms(2) have 2: "takeWhile isdigit ds = ds" by (simp add: takeWhile_eq_all_conv)
  have "istream_extract_int (ds @ rest) = istream_extract_int ds"
    unfolding istream_extract_int_def Let_def a b h
    using s by (simp add: 1 2)
  then show ?thesis by (simp add: ParameterValueParser_integral_parse_def)
qed

text \<open>
  C4 fails for the integer parser: a number followed by other characters is parsed
  as the number, and leading whitespace is skipped. Only a string without a number
  at its start is refused. The boolean parser compares the whole string.
\<close>

theorem integral_parse_accepts_trailing_input:
  "ParameterValueParser_integral_parse ''12abc'' = Inr 12 \<and>
   ParameterValueParser_integral_parse '' 12'' = Inr 12 \<and>
   ParameterValueParser_integral_parse ''1.5'' = Inr 1 \<and>
   ParameterValueParser_integral_parse ''abc'' = Inl (invalid_argument IllegalIntegerValue) \<and>
   ParameterValueParser_bool_parse ''tRue'' = Inr True \<and>
   ParameterValueParser_bool_parse ''trueX'' = Inl (invalid_argument IllegalBooleanValue)"
  by code_simp

end
